theory Spec2Isabelle
  imports Main "HOL-Library.Sublist" "HOL-Library.AList"
begin

section \<open>Python values, exceptions and the world the program acts on\<close>

text \<open>
  The program is \<^verbatim>\<open>src/convert_file.py\<close>. Python strings are modelled as \<^typ>\<open>string\<close>;
  a \<^typ>\<open>char\<close> stands for a code point below 256. Exceptions are values of the type
  \<open>exc\<close>, and every function that can raise returns \<open>exc + 'a\<close> (\<open>Inl\<close> is the raise).
\<close>

datatype exc =
    IndexError
  | KeyError
  | TypeError
  | AttributeError
  | ValueError
  | JSONDecodeError
  | CsvError
  | FileNotFoundError string
  | CalledProcessError "string list" int "string option" "string option"
    \<comment> \<open>cmd, returncode, stdout, stderr (\<open>None\<close> when the stream was not captured)\<close>

text \<open>
  A printed line. \<open>Fmt p e\<close> is the f-string \<^verbatim>\<open>f"{p}{e}"\<close> for an exception \<open>e\<close>: the
  text \<^verbatim>\<open>str(e)\<close> is made by the library and is kept symbolic.
\<close>

datatype line = Line string | Fmt string exc

text \<open>
  The mutable world: the files (path to stored characters), what \<^verbatim>\<open>print\<close> wrote, and the
  command lines handed to \<^verbatim>\<open>subprocess.run\<close>, in order. The progress bars of \<^verbatim>\<open>tqdm\<close>
  go to the error stream and are left out. The file system is flat: reading a path that
  holds no file raises \<open>FileNotFoundError\<close>, writing always succeeds, and the decoding of
  bytes into characters is not modelled.
\<close>

record world =
  files :: "string \<rightharpoonup> string"
  printed :: "line list"
  spawned :: "string list list"

text \<open>
  What the program reads from its surroundings and never changes: the line separator of
  the platform, the working directory, which programs resolve on the search path, and what a
  program that is found does with a command line (exit status, standard output, standard
  error).
\<close>

record os_env =
  linesep :: string
  getcwd :: string
  found :: "string \<Rightarrow> bool"
  exec :: "string list \<Rightarrow> int \<times> string \<times> string"

definition py_print :: "line \<Rightarrow> world \<Rightarrow> world" where
  "py_print l w = w\<lparr>printed := printed w @ [l]\<rparr>"

subsection \<open>Strings\<close>

text \<open>\<^verbatim>\<open>s.split(sep)\<close> for a separator of one character.\<close>

fun split_on :: "char \<Rightarrow> string \<Rightarrow> string list" where
  "split_on sep [] = [[]]"
| "split_on sep (c # cs) =
     (if c = sep then [] # split_on sep cs
      else (case split_on sep cs of [] \<Rightarrow> [[c]] | f # fs \<Rightarrow> (c # f) # fs))"

text \<open>\<^verbatim>\<open>sep.join(xs)\<close>.\<close>

fun py_join :: "string \<Rightarrow> string list \<Rightarrow> string" where
  "py_join sep [] = []"
| "py_join sep [x] = x"
| "py_join sep (x # y # ys) = x @ sep @ py_join sep (y # ys)"

text \<open>\<^verbatim>\<open>str(n)\<close> for an integer, and \<^verbatim>\<open>str(x)\<close> for a value that is a string or \<^verbatim>\<open>None\<close>.\<close>

fun str_nat :: "nat \<Rightarrow> string" where
  "str_nat n =
     (if n < 10 then [char_of (48 + n)] else str_nat (n div 10) @ [char_of (48 + n mod 10)])"

declare str_nat.simps [simp del]

definition str_int :: "int \<Rightarrow> string" where
  "str_int i = (if i < 0 then CHR ''-'' # str_nat (nat (- i)) else str_nat (nat i))"

definition str_opt :: "string option \<Rightarrow> string" where
  "str_opt x = (case x of None \<Rightarrow> ''None'' | Some s \<Rightarrow> s)"

section \<open>Paths\<close>

text \<open>
  \<^verbatim>\<open>os.path\<close> is modelled by its POSIX implementation (\<^verbatim>\<open>posixpath\<close>): \<^verbatim>\<open>isabs\<close>,
  \<^verbatim>\<open>join\<close> of two parts, \<^verbatim>\<open>normpath\<close> and \<^verbatim>\<open>abspath\<close>.
\<close>

definition isabs :: "string \<Rightarrow> bool" where
  "isabs p = prefix ''/'' p"

definition path_join :: "string \<Rightarrow> string \<Rightarrow> string" where
  "path_join a b =
     (if prefix ''/'' b then b
      else if a = [] \<or> suffix ''/'' a then a @ b
      else a @ ''/'' @ b)"

fun normpath_comps :: "nat \<Rightarrow> string list \<Rightarrow> string list \<Rightarrow> string list" where
  "normpath_comps i [] new_comps = new_comps"
| "normpath_comps i (cmp # comps) new_comps =
     (if cmp = [] \<or> cmp = ''.'' then normpath_comps i comps new_comps
      else if cmp \<noteq> ''..'' \<or> (i = 0 \<and> new_comps = [])
              \<or> (new_comps \<noteq> [] \<and> last new_comps = ''..'')
        then normpath_comps i comps (new_comps @ [cmp])
      else if new_comps \<noteq> [] then normpath_comps i comps (butlast new_comps)
      else normpath_comps i comps new_comps)"

definition normpath :: "string \<Rightarrow> string" where
  "normpath path =
     (if path = [] then ''.''
      else
        let initial_slashes =
              (if prefix ''/'' path
               then (if prefix ''//'' path \<and> \<not> prefix ''///'' path then 2 else 1 :: nat)
               else 0);
            comps = normpath_comps initial_slashes (split_on CHR ''/'' path) [];
            joined = py_join ''/'' comps;
            out = (if initial_slashes \<noteq> 0
                   then replicate initial_slashes CHR ''/'' @ joined else joined)
        in if out = [] then ''.'' else out)"

definition abspath :: "os_env \<Rightarrow> string \<Rightarrow> string" where
  "abspath env path =
     normpath (if \<not> isabs path then path_join (getcwd env) path else path)"

definition ensure_absolute_path :: "os_env \<Rightarrow> string \<Rightarrow> string" where
  "ensure_absolute_path env path = (if \<not> isabs path then abspath env path else path)"

section \<open>The image converter\<close>

text \<open>
  \<^verbatim>\<open>subprocess.run(cmd, check=..., capture_output=...)\<close>. The attempt is recorded in
  \<open>spawned\<close>. A program that does not resolve raises \<open>FileNotFoundError\<close>; with
  \<^verbatim>\<open>check=True\<close> a non-zero exit status raises \<open>CalledProcessError\<close>. The result of a
  completed run is its exit status and the two captured streams.
\<close>

definition subprocess_run ::
  "os_env \<Rightarrow> string list \<Rightarrow> bool \<Rightarrow> bool \<Rightarrow> world
     \<Rightarrow> (exc + int \<times> string option \<times> string option) \<times> world" where
  "subprocess_run env cmd check capture_output w =
     (case cmd of
        [] \<Rightarrow> (Inl IndexError, w)
      | prog # _ \<Rightarrow>
          let w' = w\<lparr>spawned := spawned w @ [cmd]\<rparr> in
          if \<not> found env prog then (Inl (FileNotFoundError prog), w')
          else
            (case exec env cmd of (rc, out, err) \<Rightarrow>
               let so = (if capture_output then Some out else None);
                   se = (if capture_output then Some err else None)
               in if check \<and> rc \<noteq> 0 then (Inl (CalledProcessError cmd rc so se), w')
                  else (Inr (rc, so, se), w')))"

definition probe_cmd :: "string list" where
  "probe_cmd = [''dism'', ''/?'']"

definition is_dism_available :: "os_env \<Rightarrow> world \<Rightarrow> (exc + bool) \<times> world" where
  "is_dism_available env w =
     (case subprocess_run env probe_cmd True True w of
        (Inr _, w') \<Rightarrow> (Inr True, w')
      | (Inl (CalledProcessError c rc so se), w') \<Rightarrow>
          (Inr False, py_print (Fmt ''DISM returned an error: '' (CalledProcessError c rc so se)) w')
      | (Inl (FileNotFoundError m), w') \<Rightarrow>
          (Inr False, py_print (Fmt ''DISM not found: '' (FileNotFoundError m)) w')
      | (Inl e, w') \<Rightarrow> (Inl e, w'))"

definition wimlib_esd_to_wim_cmd :: "string \<Rightarrow> string \<Rightarrow> int \<Rightarrow> string list" where
  "wimlib_esd_to_wim_cmd esd_path wim_path source_index =
     [''wimlib-imagex'', ''export'', esd_path, str_int source_index, wim_path, ''--compress=max'']"

definition wimlib_esd_to_wim ::
  "os_env \<Rightarrow> string \<Rightarrow> string \<Rightarrow> int \<Rightarrow> world \<Rightarrow> (exc + unit) \<times> world" where
  "wimlib_esd_to_wim env esd_path wim_path source_index w =
     (case subprocess_run env (wimlib_esd_to_wim_cmd esd_path wim_path source_index) True False w of
        (Inr _, w') \<Rightarrow>
          (Inr (), py_print (Line (''Successfully converted ESD to WIM using wimlib: '' @ wim_path)) w')
      | (Inl (CalledProcessError c rc so se), w') \<Rightarrow>
          (Inr (), py_print (Line (''Error: '' @ str_opt se)) w')
      | (Inl e, w') \<Rightarrow> (Inl e, w'))"

definition wimlib_wim_to_esd_cmd :: "string \<Rightarrow> string \<Rightarrow> int \<Rightarrow> string list" where
  "wimlib_wim_to_esd_cmd wim_path esd_path source_index =
     [''wimlib-imagex'', ''export'', wim_path, str_int source_index, esd_path, ''--solid'']"

definition wimlib_wim_to_esd ::
  "os_env \<Rightarrow> string \<Rightarrow> string \<Rightarrow> int \<Rightarrow> world \<Rightarrow> (exc + unit) \<times> world" where
  "wimlib_wim_to_esd env wim_path esd_path source_index w =
     (case subprocess_run env (wimlib_wim_to_esd_cmd wim_path esd_path source_index) True False w of
        (Inr _, w') \<Rightarrow>
          (Inr (), py_print (Line (''Successfully converted WIM to ESD: '' @ esd_path)) w')
      | (Inl (CalledProcessError c rc so se), w') \<Rightarrow>
          (Inr (), py_print (Line (''Error: '' @ str_opt se)) w')
      | (Inl e, w') \<Rightarrow> (Inl e, w'))"

definition esd_to_wim_dism_command :: "string \<Rightarrow> string \<Rightarrow> int \<Rightarrow> string list" where
  "esd_to_wim_dism_command esd_path wim_path source_index =
     [''dism'', ''/export-image'',
      ''/sourceimagefile:'' @ esd_path,
      ''/sourceindex:'' @ str_int source_index,
      ''/destinationimagefile:'' @ wim_path,
      ''/compress:max'', ''/checkintegrity'']"

definition esd_to_wim ::
  "os_env \<Rightarrow> string \<Rightarrow> string \<Rightarrow> int \<Rightarrow> world \<Rightarrow> (exc + unit) \<times> world" where
  "esd_to_wim env esd_path wim_path source_index w =
     (let _ = ensure_absolute_path env esd_path;
          _ = ensure_absolute_path env wim_path
      in case is_dism_available env w of
           (Inl e, w1) \<Rightarrow> (Inl e, w1)
         | (Inr True, w1) \<Rightarrow>
             (case subprocess_run env (esd_to_wim_dism_command esd_path wim_path source_index)
                     True True (py_print (Line ''Starting DISM process...'') w1) of
                (Inr (rc, so, se), w2) \<Rightarrow>
                  (Inr (), py_print (Line (''\<newline>Success: '' @ str_opt so)) w2)
              | (Inl (CalledProcessError c rc so se), w2) \<Rightarrow>
                  wimlib_esd_to_wim env esd_path wim_path source_index
                    (py_print (Line ''DISM failed, switching to wimlib...'')
                       (py_print (Line (''\<newline>Error: '' @ str_opt se)) w2))
              | (Inl e, w2) \<Rightarrow> (Inl e, w2))
         | (Inr False, w1) \<Rightarrow>
             wimlib_esd_to_wim env esd_path wim_path source_index
               (py_print (Line ''DISM is not available. Trying alternative method with wimlib...'') w1))"

definition wim_to_esd_dism_command :: "string \<Rightarrow> string \<Rightarrow> int \<Rightarrow> string list" where
  "wim_to_esd_dism_command wim_path esd_path source_index =
     [''dism'', ''/export-image'',
      ''/sourceimagefile:'' @ wim_path,
      ''/sourceindex:'' @ str_int source_index,
      ''/destinationimagefile:'' @ esd_path,
      ''/compress:recovery'', ''/checkintegrity'']"

definition wim_to_esd ::
  "os_env \<Rightarrow> string \<Rightarrow> string \<Rightarrow> int \<Rightarrow> world \<Rightarrow> (exc + unit) \<times> world" where
  "wim_to_esd env wim_path esd_path source_index w =
     (let _ = ensure_absolute_path env wim_path;
          _ = ensure_absolute_path env esd_path
      in case is_dism_available env w of
           (Inl e, w1) \<Rightarrow> (Inl e, w1)
         | (Inr True, w1) \<Rightarrow>
             (case subprocess_run env (wim_to_esd_dism_command wim_path esd_path source_index)
                     True True (py_print (Line ''Starting DISM process...'') w1) of
                (Inr (rc, so, se), w2) \<Rightarrow>
                  (Inr (), py_print (Line (''\<newline>Success: '' @ str_opt so)) w2)
              | (Inl (CalledProcessError c rc so se), w2) \<Rightarrow>
                  wimlib_wim_to_esd env wim_path esd_path source_index
                    (py_print (Line ''DISM failed, switching to wimlib...'')
                       (py_print (Line (''\<newline>Error: '' @ str_opt se)) w2))
              | (Inl e, w2) \<Rightarrow> (Inl e, w2))
         | (Inr False, w1) \<Rightarrow>
             wimlib_wim_to_esd env wim_path esd_path source_index
               (py_print (Line ''DISM is not available. Trying alternative method with wimlib...'') w1))"

section \<open>Text files\<close>

abbreviation LF :: char where "LF \<equiv> CHR ''\<newline>''"
abbreviation CR :: char where "CR \<equiv> CHR 0x0D"
abbreviation DQ :: char where "DQ \<equiv> CHR 0x22"
abbreviation COMMA :: char where "COMMA \<equiv> CHR '',''"

text \<open>
  Reading in text mode with the default \<^verbatim>\<open>newline=None\<close> turns \<^verbatim>\<open>\r\n\<close> and a lone
  \<^verbatim>\<open>\r\<close> into \<^verbatim>\<open>\n\<close>.
\<close>

fun universal_newlines :: "string \<Rightarrow> string" where
  "universal_newlines [] = []"
| "universal_newlines [c] = [if c = CR then LF else c]"
| "universal_newlines (c # d # cs) =
     (if c = CR \<and> d = LF then LF # universal_newlines cs
      else if c = CR then LF # universal_newlines (d # cs)
      else c # universal_newlines (d # cs))"

text \<open>Writing in text mode with the default \<^verbatim>\<open>newline=None\<close> turns \<^verbatim>\<open>\n\<close> into \<^verbatim>\<open>os.linesep\<close>.\<close>

definition translate_newlines :: "string \<Rightarrow> string \<Rightarrow> string" where
  "translate_newlines sep s = concat (map (\<lambda>c. if c = LF then sep else [c]) s)"

text \<open>\<^verbatim>\<open>open(path, "r")\<close> followed by reading everything.\<close>

definition open_read :: "world \<Rightarrow> string \<Rightarrow> exc + string" where
  "open_read w path =
     (case files w path of
        None \<Rightarrow> Inl (FileNotFoundError path)
      | Some raw \<Rightarrow> Inr (universal_newlines raw))"

text \<open>\<^verbatim>\<open>open(path, "w")\<close> and \<^verbatim>\<open>open(path, "w", newline="")\<close>, with everything written.\<close>

definition write_text :: "os_env \<Rightarrow> string \<Rightarrow> string \<Rightarrow> world \<Rightarrow> world" where
  "write_text env path s w = w\<lparr>files := (files w)(path \<mapsto> translate_newlines (linesep env) s)\<rparr>"

definition write_raw :: "string \<Rightarrow> string \<Rightarrow> world \<Rightarrow> world" where
  "write_raw path s w = w\<lparr>files := (files w)(path \<mapsto> s)\<rparr>"

text \<open>\<^verbatim>\<open>f.readlines()\<close>, also the lines a file object yields when iterated: each line keeps its \<^verbatim>\<open>\n\<close>.\<close>

fun readlines :: "string \<Rightarrow> string list" where
  "readlines [] = []"
| "readlines (c # cs) =
     (if c = LF then [c] # readlines cs
      else (case readlines cs of [] \<Rightarrow> [[c]] | l # ls \<Rightarrow> (c # l) # ls))"

text \<open>\<^verbatim>\<open>str.isspace\<close> on the code points below 256, and the three strips.\<close>

definition isspace :: "char \<Rightarrow> bool" where
  "isspace c \<longleftrightarrow>
     c \<in> set [CHR 0x09, LF, CHR 0x0B, CHR 0x0C, CR, CHR 0x1C, CHR 0x1D, CHR 0x1E, CHR 0x1F,
              CHR '' '', CHR 0x85, CHR 0xA0]"

definition lstrip :: "string \<Rightarrow> string" where
  "lstrip s = dropWhile isspace s"

definition rstrip :: "string \<Rightarrow> string" where
  "rstrip s = rev (dropWhile isspace (rev s))"

definition strip :: "string \<Rightarrow> string" where
  "strip s = rstrip (lstrip s)"

section \<open>The csv module, dialect excel\<close>

subsection \<open>Writer\<close>

text \<open>
  \<^verbatim>\<open>csv.writer\<close> with \<^verbatim>\<open>QUOTE_MINIMAL\<close>: a field is quoted when it holds the delimiter, the
  quote character or a character of the line terminator \<^verbatim>\<open>\r\n\<close>; a quote inside is doubled.
  A record that would be empty although it has a field (a single empty field) is written
  as a pair of quotes.
\<close>

definition needs_quotes :: "string \<Rightarrow> bool" where
  "needs_quotes f = list_ex (\<lambda>c. c = COMMA \<or> c = DQ \<or> c = CR \<or> c = LF) f"

definition write_field :: "string \<Rightarrow> string" where
  "write_field f =
     (if needs_quotes f
      then DQ # concat (map (\<lambda>c. if c = DQ then [DQ, DQ] else [c]) f) @ [DQ]
      else f)"

definition csv_record :: "string list \<Rightarrow> string" where
  "csv_record row =
     (let rec = py_join '','' (map write_field row)
      in (if row \<noteq> [] \<and> rec = [] then [DQ, DQ] else rec) @ [CR, LF])"

fun writerows :: "string list list \<Rightarrow> string \<Rightarrow> string" where
  "writerows [] out = out"
| "writerows (row # rows) out = writerows rows (out @ csv_record row)"

subsection \<open>Reader\<close>

text \<open>
  The state machine of \<^verbatim>\<open>csv.reader\<close> (\<^verbatim>\<open>parse_process_char\<close> of the C module) for the
  dialect excel: delimiter comma, quote character \<^verbatim>\<open>"\<close> doubled inside a quoted field, no
  escape character, not strict. The states that only an escape character reaches are left
  out. The character \<open>None\<close> is the end-of-line marker the reader feeds after each line.
  A field may hold at most \<open>field_limit\<close> characters (the default of
  \<^verbatim>\<open>csv.field_size_limit\<close>); a NUL character is an ordinary character, as from Python 3.11.
\<close>

datatype parser_state =
  START_RECORD | START_FIELD | IN_FIELD | IN_QUOTED_FIELD | QUOTE_IN_QUOTED_FIELD | EAT_CRNL

record reader =
  state :: parser_state
  field_buf :: string
  rec_fields :: "string list"

definition field_limit :: nat where
  "field_limit = 131072"

definition parse_reset :: reader where
  "parse_reset = \<lparr>state = START_RECORD, field_buf = [], rec_fields = []\<rparr>"

definition parse_add_char :: "reader \<Rightarrow> char \<Rightarrow> exc + reader" where
  "parse_add_char r c =
     (if length (field_buf r) \<ge> field_limit then Inl CsvError
      else Inr (r\<lparr>field_buf := field_buf r @ [c]\<rparr>))"

definition parse_save_field :: "reader \<Rightarrow> reader" where
  "parse_save_field r = r\<lparr>rec_fields := rec_fields r @ [field_buf r], field_buf := []\<rparr>"

definition set_state :: "parser_state \<Rightarrow> exc + reader \<Rightarrow> exc + reader" where
  "set_state st x = (case x of Inl e \<Rightarrow> Inl e | Inr r \<Rightarrow> Inr (r\<lparr>state := st\<rparr>))"

definition at_start_field :: "reader \<Rightarrow> char option \<Rightarrow> exc + reader" where
  "at_start_field r c =
     (case c of
        None \<Rightarrow> Inr ((parse_save_field r)\<lparr>state := START_RECORD\<rparr>)
      | Some ch \<Rightarrow>
          if ch = LF \<or> ch = CR then Inr ((parse_save_field r)\<lparr>state := EAT_CRNL\<rparr>)
          else if ch = DQ then Inr (r\<lparr>state := IN_QUOTED_FIELD\<rparr>)
          else if ch = COMMA then Inr (parse_save_field r)
          else set_state IN_FIELD (parse_add_char r ch))"

definition parse_process_char :: "reader \<Rightarrow> char option \<Rightarrow> exc + reader" where
  "parse_process_char r c =
     (case state r of
        START_RECORD \<Rightarrow>
          (case c of
             None \<Rightarrow> Inr r
           | Some ch \<Rightarrow>
               if ch = LF \<or> ch = CR then Inr (r\<lparr>state := EAT_CRNL\<rparr>)
               else at_start_field (r\<lparr>state := START_FIELD\<rparr>) c)
      | START_FIELD \<Rightarrow> at_start_field r c
      | IN_FIELD \<Rightarrow>
          (case c of
             None \<Rightarrow> Inr ((parse_save_field r)\<lparr>state := START_RECORD\<rparr>)
           | Some ch \<Rightarrow>
               if ch = LF \<or> ch = CR then Inr ((parse_save_field r)\<lparr>state := EAT_CRNL\<rparr>)
               else if ch = COMMA then Inr ((parse_save_field r)\<lparr>state := START_FIELD\<rparr>)
               else parse_add_char r ch)
      | IN_QUOTED_FIELD \<Rightarrow>
          (case c of
             None \<Rightarrow> Inr r
           | Some ch \<Rightarrow>
               if ch = DQ then Inr (r\<lparr>state := QUOTE_IN_QUOTED_FIELD\<rparr>)
               else parse_add_char r ch)
      | QUOTE_IN_QUOTED_FIELD \<Rightarrow>
          (case c of
             None \<Rightarrow> Inr ((parse_save_field r)\<lparr>state := START_RECORD\<rparr>)
           | Some ch \<Rightarrow>
               if ch = DQ then set_state IN_QUOTED_FIELD (parse_add_char r ch)
               else if ch = COMMA then Inr ((parse_save_field r)\<lparr>state := START_FIELD\<rparr>)
               else if ch = LF \<or> ch = CR then Inr ((parse_save_field r)\<lparr>state := EAT_CRNL\<rparr>)
               else set_state IN_FIELD (parse_add_char r ch))
      | EAT_CRNL \<Rightarrow>
          (case c of
             None \<Rightarrow> Inr (r\<lparr>state := START_RECORD\<rparr>)
           | Some ch \<Rightarrow> if ch = LF \<or> ch = CR then Inr r else Inl CsvError))"

text \<open>One line: its characters, then the end-of-line marker.\<close>

fun parse_chars :: "reader \<Rightarrow> string \<Rightarrow> exc + reader" where
  "parse_chars r [] = Inr r"
| "parse_chars r (c # cs) =
     (case parse_process_char r (Some c) of
        Inl e \<Rightarrow> Inl e
      | Inr r' \<Rightarrow> parse_chars r' cs)"

definition parse_line :: "reader \<Rightarrow> string \<Rightarrow> exc + reader" where
  "parse_line r l =
     (case parse_chars r l of
        Inl e \<Rightarrow> Inl e
      | Inr r' \<Rightarrow> parse_process_char r' None)"

text \<open>
  All records of the input, as \<^verbatim>\<open>list(reader)\<close> collects them. A record ends with the line
  that leaves the machine in \<open>START_RECORD\<close>; at the end of the input a record that has begun
  (a field is in the buffer, or a quoted field is open) is still returned.
\<close>

fun read_rows :: "reader \<Rightarrow> string list \<Rightarrow> exc + string list list" where
  "read_rows r [] =
     (if field_buf r \<noteq> [] \<or> state r = IN_QUOTED_FIELD
      then Inr [rec_fields (parse_save_field r)] else Inr [])"
| "read_rows r (l # ls) =
     (case parse_line r l of
        Inl e \<Rightarrow> Inl e
      | Inr r' \<Rightarrow>
          if state r' = START_RECORD
          then (case read_rows parse_reset ls of
                  Inl e \<Rightarrow> Inl e
                | Inr rows \<Rightarrow> Inr (rec_fields r' # rows))
          else read_rows r' ls)"

definition csv_reader :: "string list \<Rightarrow> exc + string list list" where
  "csv_reader lines = read_rows parse_reset lines"

subsection \<open>DictReader\<close>

text \<open>
  A row of \<^verbatim>\<open>csv.DictReader\<close> is a dictionary in insertion order. Its keys are the column
  names, and \<^verbatim>\<open>None\<close> (the default \<^verbatim>\<open>restkey\<close>) for the surplus fields of a long row; its
  values are strings, \<^verbatim>\<open>None\<close> (the default \<^verbatim>\<open>restval\<close>) for the missing fields of a
  short row, and the list of surplus fields.
\<close>

datatype dr_val = VStr string | VNone | VRest "string list"

type_synonym dr_row = "(string option \<times> dr_val) list"

definition dict_row :: "string list \<Rightarrow> string list \<Rightarrow> dr_row" where
  "dict_row fieldnames row =
     (let d = fold (\<lambda>(k, v). AList.update (Some k) (VStr v)) (zip fieldnames row) [];
          lf = length fieldnames;
          lr = length row
      in if lf < lr then AList.update None (VRest (drop lf row)) d
         else if lf > lr then fold (\<lambda>k. AList.update (Some k) VNone) (drop lr fieldnames) d
         else d)"

text \<open>
  The loop \<^verbatim>\<open>for row in reader: data.append(row)\<close> over a \<^verbatim>\<open>DictReader\<close>: blank rows are
  skipped.
\<close>

fun dict_rows :: "string list \<Rightarrow> string list list \<Rightarrow> dr_row list \<Rightarrow> dr_row list" where
  "dict_rows fieldnames [] data = data"
| "dict_rows fieldnames (row # rows) data =
     (if row = [] then dict_rows fieldnames rows data
      else dict_rows fieldnames rows (data @ [dict_row fieldnames row]))"

definition dict_reader :: "string list list \<Rightarrow> dr_row list" where
  "dict_reader rows =
     (case rows of [] \<Rightarrow> [] | fieldnames # rest \<Rightarrow> dict_rows fieldnames rest [])"

section \<open>The tabular converter\<close>

fun txt_rows :: "string list \<Rightarrow> string list list \<Rightarrow> string list list" where
  "txt_rows [] data = data"
| "txt_rows (ln # lines) data = txt_rows lines (data @ [split_on COMMA (strip ln)])"

definition txt_to_csv :: "os_env \<Rightarrow> string \<Rightarrow> string \<Rightarrow> world \<Rightarrow> (exc + unit) \<times> world" where
  "txt_to_csv env txt_path csv_path w =
     (let _ = ensure_absolute_path env txt_path;
          _ = ensure_absolute_path env csv_path
      in case open_read w txt_path of
           Inl e \<Rightarrow> (Inl e, w)
         | Inr text \<Rightarrow>
             let lines = readlines text;
                 data = txt_rows lines [];
                 w1 = write_raw csv_path (writerows data []) w
             in (Inr (), py_print (Line (''Converted TXT to CSV: '' @ csv_path)) w1))"

fun txt_lines :: "string list list \<Rightarrow> string \<Rightarrow> string" where
  "txt_lines [] out = out"
| "txt_lines (row # rows) out = txt_lines rows (out @ py_join '','' row @ [LF])"

definition csv_to_txt :: "os_env \<Rightarrow> string \<Rightarrow> string \<Rightarrow> world \<Rightarrow> (exc + unit) \<times> world" where
  "csv_to_txt env csv_path txt_path w =
     (let _ = ensure_absolute_path env csv_path;
          _ = ensure_absolute_path env txt_path
      in case open_read w csv_path of
           Inl e \<Rightarrow> (Inl e, w)
         | Inr text \<Rightarrow>
             (case csv_reader (readlines text) of
                Inl e \<Rightarrow> (Inl e, w)
              | Inr data \<Rightarrow>
                  let w1 = write_text env txt_path (txt_lines data []) w
                  in (Inr (), py_print (Line (''Converted CSV to TXT: '' @ txt_path)) w1)))"

text \<open>
  \<^verbatim>\<open>csv_to_json\<close>. The serialiser \<^verbatim>\<open>json.dump(data, f, indent=4)\<close> is the parameter
  \<open>dumps\<close>; \<open>csv_to_json_data\<close> is the list \<^verbatim>\<open>data\<close> it is given.
\<close>

definition csv_to_json_data :: "string \<Rightarrow> exc + dr_row list" where
  "csv_to_json_data text =
     (case csv_reader (readlines text) of
        Inl e \<Rightarrow> Inl e
      | Inr rows \<Rightarrow> Inr (dict_reader rows))"

definition csv_to_json ::
  "os_env \<Rightarrow> (dr_row list \<Rightarrow> string) \<Rightarrow> string \<Rightarrow> string \<Rightarrow> world \<Rightarrow> (exc + unit) \<times> world" where
  "csv_to_json env dumps csv_path json_path w =
     (let _ = ensure_absolute_path env csv_path;
          _ = ensure_absolute_path env json_path
      in case open_read w csv_path of
           Inl e \<Rightarrow> (Inl e, w)
         | Inr text \<Rightarrow>
             (case csv_to_json_data text of
                Inl e \<Rightarrow> (Inl e, w)
              | Inr data \<Rightarrow>
                  let w1 = write_text env json_path (dumps data) w
                  in (Inr (), py_print (Line (''Converted CSV to JSON: '' @ json_path)) w1)))"

subsection \<open>JSON to CSV\<close>

text \<open>
  What \<^verbatim>\<open>json.load\<close> returns. The payload of a number is left open (\<open>'n\<close>); an object is
  its items in order.
\<close>

datatype 'n json =
    JNull
  | JBool bool
  | JNum 'n
  | JStr string
  | JArr "'n json list"
  | JObj "(string \<times> 'n json) list"

text \<open>\<^verbatim>\<open>data[0]\<close>, \<^verbatim>\<open>x.keys()\<close> and \<^verbatim>\<open>for row in data\<close> on such a value.\<close>

definition subscript0 :: "'n json \<Rightarrow> exc + 'n json" where
  "subscript0 data =
     (case data of
        JArr [] \<Rightarrow> Inl IndexError
      | JArr (x # _) \<Rightarrow> Inr x
      | JStr [] \<Rightarrow> Inl IndexError
      | JStr (c # _) \<Rightarrow> Inr (JStr [c])
      | JObj _ \<Rightarrow> Inl KeyError
      | _ \<Rightarrow> Inl TypeError)"

definition keys :: "'n json \<Rightarrow> exc + string list" where
  "keys x = (case x of JObj kvs \<Rightarrow> Inr (map fst kvs) | _ \<Rightarrow> Inl AttributeError)"

definition py_iter :: "'n json \<Rightarrow> exc + 'n json list" where
  "py_iter data =
     (case data of
        JArr xs \<Rightarrow> Inr xs
      | JStr s \<Rightarrow> Inr (map (\<lambda>c. JStr [c]) s)
      | JObj kvs \<Rightarrow> Inr (map (\<lambda>kv. JStr (fst kv)) kvs)
      | _ \<Rightarrow> Inl TypeError)"

text \<open>
  \<^verbatim>\<open>DictWriter._dict_to_list\<close> with the defaults \<^verbatim>\<open>extrasaction="raise"\<close> and
  \<^verbatim>\<open>restval=""\<close>: a key outside the field names raises \<open>ValueError\<close>, a field name the
  row lacks gives the empty string.
\<close>

definition dict_to_list :: "string list \<Rightarrow> 'n json \<Rightarrow> exc + 'n json list" where
  "dict_to_list fieldnames rowdict =
     (case rowdict of
        JObj kvs \<Rightarrow>
          if list_ex (\<lambda>k. k \<notin> set fieldnames) (map fst kvs) then Inl ValueError
          else Inr (map (\<lambda>key. case map_of kvs key of None \<Rightarrow> JStr [] | Some v \<Rightarrow> v) fieldnames)
      | _ \<Rightarrow> Inl AttributeError)"

text \<open>
  The text the writer makes of a cell: a string as it is, \<^verbatim>\<open>None\<close> as the empty string,
  anything else through \<^verbatim>\<open>str\<close>, the parameter \<open>str_of\<close>.
\<close>

definition cell_text :: "('n json \<Rightarrow> string) \<Rightarrow> 'n json \<Rightarrow> string" where
  "cell_text str_of v = (case v of JStr s \<Rightarrow> s | JNull \<Rightarrow> [] | _ \<Rightarrow> str_of v)"

text \<open>
  The loop \<^verbatim>\<open>for row in data: writer.writerow(row)\<close>; the result is the exception that
  stopped it, if any, and the text written so far.
\<close>

fun write_dict_rows ::
  "('n json \<Rightarrow> string) \<Rightarrow> string list \<Rightarrow> 'n json list \<Rightarrow> string \<Rightarrow> exc option \<times> string" where
  "write_dict_rows str_of fieldnames [] out = (None, out)"
| "write_dict_rows str_of fieldnames (row # rows) out =
     (case dict_to_list fieldnames row of
        Inl e \<Rightarrow> (Some e, out)
      | Inr cells \<Rightarrow>
          write_dict_rows str_of fieldnames rows
            (out @ csv_record (map (cell_text str_of) cells)))"

text \<open>
  \<^verbatim>\<open>json_to_csv\<close>. The parser \<^verbatim>\<open>json.load\<close> is the parameter \<open>loads\<close>. The output file
  is opened, and so emptied, before \<^verbatim>\<open>data[0]\<close> is evaluated; what was written before an
  exception stays in it.
\<close>

definition json_to_csv ::
  "os_env \<Rightarrow> (string \<Rightarrow> exc + 'n json) \<Rightarrow> ('n json \<Rightarrow> string) \<Rightarrow> string \<Rightarrow> string \<Rightarrow> world
     \<Rightarrow> (exc + unit) \<times> world" where
  "json_to_csv env loads str_of json_path csv_path w =
     (let _ = ensure_absolute_path env json_path;
          _ = ensure_absolute_path env csv_path
      in case open_read w json_path of
           Inl e \<Rightarrow> (Inl e, w)
         | Inr text \<Rightarrow>
             (case loads text of
                Inl e \<Rightarrow> (Inl e, w)
              | Inr data \<Rightarrow>
                  let w1 = write_raw csv_path [] w in
                  (case subscript0 data of
                     Inl e \<Rightarrow> (Inl e, w1)
                   | Inr first \<Rightarrow>
                       (case keys first of
                          Inl e \<Rightarrow> (Inl e, w1)
                        | Inr fieldnames \<Rightarrow>
                            (case py_iter data of
                               Inl e \<Rightarrow> (Inl e, write_raw csv_path (csv_record fieldnames) w1)
                             | Inr rows \<Rightarrow>
                                 (case write_dict_rows str_of fieldnames rows
                                         (csv_record fieldnames) of
                                    (None, out) \<Rightarrow> (Inr (), write_raw csv_path out w1)
                                  | (Some e, out) \<Rightarrow> (Inl e, write_raw csv_path out w1)))))))"

section \<open>Notions used in the statements and proofs\<close>



definition no_tools :: os_env where
  "no_tools = \<lparr>linesep = [LF], getcwd = ''/'', found = (\<lambda>_. False), exec = (\<lambda>_. (0, [], []))\<rparr>"



text \<open>A world with one file; a parser that returns a given value; two JSON inputs.\<close>

definition world_with :: "string \<Rightarrow> string \<Rightarrow> world" where
  "world_with path raw = \<lparr>files = [path \<mapsto> raw], printed = [], spawned = []\<rparr>"

definition loads_const :: "nat json \<Rightarrow> string \<Rightarrow> exc + nat json" where
  "loads_const v text = Inr v"

definition short_second_row :: "nat json" where
  "short_second_row =
     JArr [JObj [(''a'', JStr ''1''), (''b'', JStr ''2'')], JObj [(''a'', JStr ''3'')]]"

definition long_second_row :: "nat json" where
  "long_second_row =
     JArr [JObj [(''a'', JStr ''1'')], JObj [(''a'', JStr ''2''), (''c'', JStr ''3'')]]"

text \<open>
  The cells of the record written for a JSON object: for each field name the text of the
  object's value, and the empty string where the object has no such key.
\<close>

definition row_cells ::
  "('n json \<Rightarrow> string) \<Rightarrow> string list \<Rightarrow> (string \<times> 'n json) list \<Rightarrow> string list" where
  "row_cells str_of fieldnames kvs =
     map (\<lambda>key. case map_of kvs key of None \<Rightarrow> [] | Some v \<Rightarrow> cell_text str_of v) fieldnames"

text \<open>Surroundings with the working directory \<^verbatim>\<open>/home/u\<close>.\<close>

definition home_env :: os_env where
  "home_env =
     \<lparr>linesep = [LF], getcwd = ''/home/u'', found = (\<lambda>_. False), exec = (\<lambda>_. (0, [], []))\<rparr>"

text \<open>A character that the reader takes as part of an unquoted field.\<close>

definition plain :: "char \<Rightarrow> bool" where
  "plain c \<longleftrightarrow> c \<noteq> COMMA \<and> c \<noteq> DQ \<and> c \<noteq> CR \<and> c \<noteq> LF"

text \<open>A field with each quote doubled, as the writer puts it between quotes.\<close>

definition escape_quotes :: "string \<Rightarrow> string" where
  "escape_quotes f = concat (map (\<lambda>c. if c = DQ then [DQ, DQ] else [c]) f)"

text \<open>
  A field without carriage return or line feed that fits the field size limit of the reader.
\<close>

definition clean_field :: "string \<Rightarrow> bool" where
  "clean_field f \<longleftrightarrow> CR \<notin> set f \<and> LF \<notin> set f \<and> length f \<le> field_limit"

text \<open>The state of the reader after a field that a comma or a line feed ends.\<close>

definition sep_state :: "char \<Rightarrow> parser_state" where
  "sep_state t = (if t = COMMA then START_FIELD else EAT_CRNL)"

text \<open>The text of a record as the writer makes it, without the line terminator.\<close>

definition record_text :: "string list \<Rightarrow> string" where
  "record_text row =
     (let rec = py_join '','' (map write_field row)
      in if row \<noteq> [] \<and> rec = [] then [DQ, DQ] else rec)"

section \<open>Properties of the image converter\<close>

lemma spawned_py_print [simp]: "spawned (py_print l w) = spawned w"
  by (simp add: py_print_def)

lemma files_py_print [simp]: "files (py_print l w) = files w"
  by (simp add: py_print_def)

lemma printed_py_print [simp]: "printed (py_print l w) = printed w @ [l]"
  by (simp add: py_print_def)

lemma subprocess_run_cases:
  "subprocess_run env (p # args) chk cap w =
     (if \<not> found env p then (Inl (FileNotFoundError p), w\<lparr>spawned := spawned w @ [p # args]\<rparr>)
      else if chk \<and> fst (exec env (p # args)) \<noteq> 0
        then (Inl (CalledProcessError (p # args) (fst (exec env (p # args)))
                 (if cap then Some (fst (snd (exec env (p # args)))) else None)
                 (if cap then Some (snd (snd (exec env (p # args)))) else None)),
              w\<lparr>spawned := spawned w @ [p # args]\<rparr>)
      else (Inr (fst (exec env (p # args)),
                 (if cap then Some (fst (snd (exec env (p # args)))) else None),
                 (if cap then Some (snd (snd (exec env (p # args)))) else None)),
            w\<lparr>spawned := spawned w @ [p # args]\<rparr>))"
  by (simp add: subprocess_run_def Let_def split: prod.splits)

lemma is_dism_available_eq:
  "is_dism_available env w =
     (Inr (found env ''dism'' \<and> fst (exec env probe_cmd) = 0),
      (if found env ''dism'' \<and> fst (exec env probe_cmd) = 0
       then w\<lparr>spawned := spawned w @ [probe_cmd]\<rparr>
       else if found env ''dism''
         then py_print (Fmt ''DISM returned an error: ''
                (CalledProcessError probe_cmd (fst (exec env probe_cmd))
                   (Some (fst (snd (exec env probe_cmd)))) (Some (snd (snd (exec env probe_cmd))))))
                (w\<lparr>spawned := spawned w @ [probe_cmd]\<rparr>)
         else py_print (Fmt ''DISM not found: '' (FileNotFoundError ''dism''))
                (w\<lparr>spawned := spawned w @ [probe_cmd]\<rparr>)))"
  unfolding is_dism_available_def
  by (simp add: probe_cmd_def subprocess_run_cases)













text \<open>
  Claim C1, at the input it names: neither \<^verbatim>\<open>dism\<close> nor \<^verbatim>\<open>wimlib-imagex\<close> is on the system.
  The probe answers false, and both conversions then raise \<open>FileNotFoundError\<close> for the
  fallback tool: the wrappers around it catch \<open>CalledProcessError\<close> only.
\<close>

theorem image_conversion_raises_when_both_tools_absent:
  "fst (is_dism_available no_tools w) = Inr False
   \<and> fst (esd_to_wim no_tools esd wim i w) = Inl (FileNotFoundError ''wimlib-imagex'')
   \<and> fst (wim_to_esd no_tools wim esd i w) = Inl (FileNotFoundError ''wimlib-imagex'')"
  unfolding esd_to_wim_def wim_to_esd_def Let_def is_dism_available_eq
  by (simp add: no_tools_def wimlib_esd_to_wim_def wimlib_wim_to_esd_def
        wimlib_esd_to_wim_cmd_def wimlib_wim_to_esd_cmd_def subprocess_run_cases)

section \<open>Properties of JSON to CSV\<close>

lemma open_read_Some: "files w p = Some raw \<Longrightarrow> open_read w p = Inr (universal_newlines raw)"
  by (simp add: open_read_def)

lemma dict_to_list_error:
  "dict_to_list fns x = Inl e \<Longrightarrow> e = ValueError \<or> e = AttributeError"
  by (auto simp: dict_to_list_def split: json.splits if_splits)

lemma dict_to_list_obj_error:
  "dict_to_list fns (JObj kvs) = Inl e \<Longrightarrow> e = ValueError"
  by (auto simp: dict_to_list_def split: if_splits)

lemma dict_to_list_extra_key:
  "k \<in> fst ` set kvs \<Longrightarrow> k \<notin> set fns \<Longrightarrow> dict_to_list fns (JObj kvs) = Inl ValueError"
  by (auto simp: dict_to_list_def list_ex_iff)

lemma dict_to_list_subset:
  "fst ` set kvs \<subseteq> set fns \<Longrightarrow>
   dict_to_list fns (JObj kvs)
     = Inr (map (\<lambda>key. case map_of kvs key of None \<Rightarrow> JStr [] | Some v \<Rightarrow> v) fns)"
  by (auto simp: dict_to_list_def list_ex_iff)

text \<open>The loop stops at the first row that the writer refuses.\<close>

lemma write_dict_rows_fails:
  "x \<in> set rows \<Longrightarrow> dict_to_list fns x = Inl e0
   \<Longrightarrow> \<exists>e out'. write_dict_rows str_of fns rows out = (Some e, out')
         \<and> (e = ValueError \<or> e = AttributeError)"
proof (induction rows arbitrary: out)
  case Nil
  then show ?case by simp
next
  case (Cons r rows)
  show ?case
  proof (cases "dict_to_list fns r")
    case (Inl e)
    then show ?thesis using dict_to_list_error [OF Inl] by auto
  next
    case (Inr cells)
    with Cons.prems have "x \<in> set rows" by auto
    from Cons.IH [OF this Cons.prems(2)] Inr show ?thesis by simp
  qed
qed

lemma write_dict_rows_objects_error:
  "\<forall>x \<in> set rows. \<exists>kvs. x = JObj kvs
   \<Longrightarrow> write_dict_rows str_of fns rows out = (Some e, out') \<Longrightarrow> e = ValueError"
proof (induction rows arbitrary: out)
  case Nil
  then show ?case by simp
next
  case (Cons r rows)
  then obtain kvs where r: "r = JObj kvs" by auto
  show ?case
  proof (cases "dict_to_list fns r")
    case (Inl e')
    with Cons.prems(2) have "e = e'" by simp
    with Inl r show ?thesis using dict_to_list_obj_error by blast
  next
    case (Inr cells)
    with Cons show ?thesis by auto
  qed
qed

lemma write_dict_rows_ok:
  "\<forall>kvs \<in> set objs. fst ` set kvs \<subseteq> set fns
   \<Longrightarrow> write_dict_rows str_of fns (map JObj objs) out
       = (None, out @ concat (map (\<lambda>kvs. csv_record (row_cells str_of fns kvs)) objs))"
proof (induction objs arbitrary: out)
  case Nil
  then show ?case by simp
next
  case (Cons kvs objs)
  have cells: "map (cell_text str_of)
                 (map (\<lambda>key. case map_of kvs key of None \<Rightarrow> JStr [] | Some v \<Rightarrow> v) fns)
               = row_cells str_of fns kvs"
    by (auto simp: row_cells_def cell_text_def split: option.splits)
  from Cons.prems have sub: "fst ` set kvs \<subseteq> set fns" by simp
  from Cons.prems have "\<forall>kvs \<in> set objs. fst ` set kvs \<subseteq> set fns" by simp
  from Cons.IH [OF this] show ?case
    using cells by (simp add: dict_to_list_subset [OF sub] del: map_map)
qed

text \<open>
  Claim C5. When the JSON input is the empty array, \<^verbatim>\<open>json_to_csv\<close> fails: \<^verbatim>\<open>data[0]\<close>
  raises \<open>IndexError\<close>. The output file has been opened by then and is left empty.
\<close>

theorem json_to_csv_empty_array_fails:
  assumes "files w json_path = Some raw"
    and "loads (universal_newlines raw) = Inr (JArr [])"
  shows "json_to_csv env loads str_of json_path csv_path w
           = (Inl IndexError, write_raw csv_path [] w)"
  using assms by (simp add: json_to_csv_def Let_def open_read_Some subscript0_def)

theorem json_to_csv_empty_array_witness:
  "json_to_csv no_tools (loads_const (JArr [])) (\<lambda>_. []) ''in.json'' ''out.csv''
       (world_with ''in.json'' ''[]'')
     = (Inl IndexError, write_raw ''out.csv'' [] (world_with ''in.json'' ''[]''))"
  using json_to_csv_empty_array_fails
          [of "world_with ''in.json'' ''[]''" "''in.json''" "''[]''" "loads_const (JArr [])"
              no_tools "\<lambda>_. []" "''out.csv''"]
  by (simp add: world_with_def loads_const_def)

text \<open>
  Claim C10. When the first element of the JSON array is an object, its keys are the
  header; if a later element is an object with a key that is not among them,
  \<^verbatim>\<open>json_to_csv\<close> raises. The exception is \<open>ValueError\<close> (the extra-field action of the
  writer) or, when an element before it is not an object, \<open>AttributeError\<close>; it is
  \<open>ValueError\<close> when all elements are objects.
\<close>

theorem json_to_csv_extra_key_raises:
  assumes "files w json_path = Some raw"
    and "loads (universal_newlines raw) = Inr (JArr (JObj first # rest))"
    and "JObj kvs \<in> set rest"
    and "k \<in> fst ` set kvs"
    and "k \<notin> fst ` set first"
  shows "\<exists>e. fst (json_to_csv env loads str_of json_path csv_path w) = Inl e
            \<and> (e = ValueError \<or> e = AttributeError)
            \<and> ((\<forall>x \<in> set rest. \<exists>kvs'. x = JObj kvs') \<longrightarrow> e = ValueError)"
proof -
  let ?fns = "map fst first"
  let ?rows = "JObj first # rest"
  have bad: "dict_to_list ?fns (JObj kvs) = Inl ValueError"
    using assms(4,5) by (intro dict_to_list_extra_key) auto
  have "JObj kvs \<in> set ?rows" using assms(3) by simp
  from write_dict_rows_fails [OF this bad]
  obtain e out' where w: "write_dict_rows str_of ?fns ?rows (csv_record ?fns) = (Some e, out')"
    and e: "e = ValueError \<or> e = AttributeError" by blast
  have all: "(\<forall>x \<in> set rest. \<exists>kvs'. x = JObj kvs') \<longrightarrow> e = ValueError"
  proof
    assume "\<forall>x \<in> set rest. \<exists>kvs'. x = JObj kvs'"
    then have "\<forall>x \<in> set ?rows. \<exists>kvs'. x = JObj kvs'" by simp
    from write_dict_rows_objects_error [OF this w] show "e = ValueError" .
  qed
  have "fst (json_to_csv env loads str_of json_path csv_path w) = Inl e"
    using assms(1,2) w
    by (simp add: json_to_csv_def Let_def open_read_Some subscript0_def keys_def py_iter_def)
  with e all show ?thesis by blast
qed

theorem json_to_csv_extra_key_witness:
  "fst (json_to_csv no_tools (loads_const long_second_row) (\<lambda>_. []) ''in.json'' ''out.csv''
          (world_with ''in.json'' [])) = Inl ValueError"
  using json_to_csv_extra_key_raises
          [of "world_with ''in.json'' []" "''in.json''" "[]" "loads_const long_second_row"
              "[(''a'', JStr ''1'')]" "[JObj [(''a'', JStr ''2''), (''c'', JStr ''3'')]]"
              "[(''a'', JStr ''2''), (''c'', JStr ''3'')]" "''c''" no_tools "\<lambda>_. []" "''out.csv''"]
  by (simp add: world_with_def loads_const_def long_second_row_def)

text \<open>
  Claim C2 says that \<^verbatim>\<open>json_to_csv\<close> fails with a missing-key error whenever an element
  after the first lacks a key of the first. It does not: for the array
  \<^verbatim>\<open>[{"a": "1", "b": "2"}, {"a": "3"}]\<close> the second element lacks \<^verbatim>\<open>b\<close>, and the call
  returns normally, having written the records \<^verbatim>\<open>a,b\<close>, \<^verbatim>\<open>1,2\<close> and \<^verbatim>\<open>3,\<close>.
\<close>

theorem json_to_csv_missing_key_counterexample:
  "(''b'' \<in> fst ` set [(''a'', JStr ''1''), (''b'', JStr ''2'' :: nat json)]
      \<and> ''b'' \<notin> fst ` set [(''a'', JStr ''3'' :: nat json)])
   \<and> json_to_csv no_tools (loads_const short_second_row) (\<lambda>_. []) ''in.json'' ''out.csv''
         (world_with ''in.json'' [])
     = (Inr (), write_raw ''out.csv''
                  ([CHR ''a'', COMMA, CHR ''b'', CR, LF, CHR ''1'', COMMA, CHR ''2'', CR, LF,
                    CHR ''3'', COMMA, CR, LF])
                  (world_with ''in.json'' []))"
  by (simp add: json_to_csv_def Let_def open_read_def world_with_def loads_const_def
        short_second_row_def subscript0_def keys_def py_iter_def dict_to_list_def
        cell_text_def csv_record_def write_field_def needs_quotes_def write_raw_def)

text \<open>
  Claim C2, amended. When every element of the JSON array is an object and the keys of
  every later element are among the keys of the first, \<^verbatim>\<open>json_to_csv\<close> returns normally:
  it writes the header and one record per element, with the empty string in the column of
  each key the element lacks.
\<close>

theorem json_to_csv_fills_missing_keys:
  assumes "files w json_path = Some raw"
    and "loads (universal_newlines raw) = Inr (JArr (map JObj (first # objs)))"
    and "\<forall>kvs \<in> set objs. fst ` set kvs \<subseteq> fst ` set first"
  shows "json_to_csv env loads str_of json_path csv_path w
           = (Inr (), write_raw csv_path
                (csv_record (map fst first)
                   @ concat (map (\<lambda>kvs. csv_record (row_cells str_of (map fst first) kvs))
                               (first # objs))) w)"
proof -
  have "\<forall>kvs \<in> set (first # objs). fst ` set kvs \<subseteq> set (map fst first)"
    using assms(3) by simp
  from write_dict_rows_ok [OF this, of str_of "csv_record (map fst first)"]
  show ?thesis using assms(1,2)
    by (simp add: json_to_csv_def Let_def open_read_Some subscript0_def keys_def py_iter_def
          write_raw_def)
qed

theorem json_to_csv_fills_missing_keys_witness:
  "json_to_csv no_tools (loads_const short_second_row) (\<lambda>_. []) ''in.json'' ''out.csv''
         (world_with ''in.json'' [])
     = (Inr (), write_raw ''out.csv''
                  ([CHR ''a'', COMMA, CHR ''b'', CR, LF, CHR ''1'', COMMA, CHR ''2'', CR, LF,
                    CHR ''3'', COMMA, CR, LF])
                  (world_with ''in.json'' []))"
  using json_to_csv_fills_missing_keys
          [of "world_with ''in.json'' []" "''in.json''" "[]" "loads_const short_second_row"
              "[(''a'', JStr ''1''), (''b'', JStr ''2'')]" "[[(''a'', JStr ''3'')]]"
              no_tools "\<lambda>_. []" "''out.csv''"]
  by (simp add: world_with_def loads_const_def short_second_row_def row_cells_def
        cell_text_def csv_record_def write_field_def needs_quotes_def)

section \<open>Properties of path normalisation\<close>

lemma isabs_Cons: "isabs p \<longleftrightarrow> (\<exists>cs. p = CHR ''/'' # cs)"
  by (cases p) (auto simp: isabs_def)

lemma isabs_normpath: "isabs p \<Longrightarrow> isabs (normpath p)"
  by (auto simp: isabs_Cons normpath_def Let_def numeral_2_eq_2)

lemma isabs_path_join: "isabs a \<Longrightarrow> isabs (path_join a b)"
  by (cases b) (auto simp: isabs_Cons path_join_def)

lemma isabs_abspath: "isabs (getcwd env) \<Longrightarrow> isabs (abspath env p)"
  by (simp add: abspath_def isabs_normpath isabs_path_join)

text \<open>
  Claim C9. With an absolute working directory (\<^verbatim>\<open>os.getcwd()\<close> returns one),
  \<^verbatim>\<open>ensure_absolute_path\<close> returns an absolute path unchanged, returns for a relative path
  the normalised join of the working directory and the path, which is absolute, and is
  idempotent.
\<close>

theorem ensure_absolute_path_absolute_and_idempotent:
  assumes "isabs (getcwd env)"
  shows "(isabs p \<longrightarrow> ensure_absolute_path env p = p)
       \<and> (\<not> isabs p \<longrightarrow> ensure_absolute_path env p = normpath (path_join (getcwd env) p))
       \<and> isabs (ensure_absolute_path env p)
       \<and> ensure_absolute_path env (ensure_absolute_path env p) = ensure_absolute_path env p"
  using isabs_abspath [OF assms, of p]
  by (simp add: ensure_absolute_path_def) (simp add: abspath_def)

theorem ensure_absolute_path_witness:
  "ensure_absolute_path home_env ''data/../in.txt'' = ''/home/u/in.txt''
   \<and> ensure_absolute_path home_env ''/home/u/in.txt'' = ''/home/u/in.txt''
   \<and> ensure_absolute_path home_env (ensure_absolute_path home_env ''data/../in.txt'')
       = ensure_absolute_path home_env ''data/../in.txt''"
proof -
  have cwd: "isabs (getcwd home_env)"
    by (simp add: home_env_def isabs_def)
  have rel: "\<not> isabs ''data/../in.txt''" and ab: "isabs ''/home/u/in.txt''"
    by (simp_all add: isabs_def)
  have norm: "normpath (path_join (getcwd home_env) ''data/../in.txt'') = ''/home/u/in.txt''"
    by (simp add: home_env_def path_join_def normpath_def Let_def suffix_to_prefix)
  show ?thesis
    using ensure_absolute_path_absolute_and_idempotent [OF cwd, of "''data/../in.txt''"]
          ensure_absolute_path_absolute_and_idempotent [OF cwd, of "''/home/u/in.txt''"]
          rel ab norm
    by simp
qed

section \<open>Properties of text to CSV\<close>

lemma txt_rows_eq: "txt_rows lines data = data @ map (\<lambda>l. split_on COMMA (strip l)) lines"
  by (induction lines arbitrary: data) simp_all

lemma writerows_eq: "writerows rows out = out @ concat (map csv_record rows)"
  by (induction rows arbitrary: out) simp_all

lemma csv_record_blank: "csv_record [[]] = [DQ, DQ, CR, LF]"
  by (simp add: csv_record_def write_field_def needs_quotes_def)

text \<open>
  Claim C3 says that the i-th row is the i-th line with its trailing whitespace stripped and
  then split on the comma. The code strips at both ends: for the file holding the line
  \<^verbatim>\<open> a,b\<close> it writes the row \<^verbatim>\<open>a\<close>, \<^verbatim>\<open>b\<close>, where stripping at the end only gives the
  row \<^verbatim>\<open> a\<close>, \<^verbatim>\<open>b\<close>.
\<close>

theorem txt_to_csv_leading_space_counterexample:
  "txt_rows (readlines (universal_newlines '' a,b\<newline>'')) [] = [[''a'', ''b'']]
   \<and> map (\<lambda>l. split_on COMMA (rstrip l)) (readlines (universal_newlines '' a,b\<newline>''))
       = [['' a'', ''b'']]
   \<and> fst (txt_to_csv home_env ''in.txt'' ''out.csv'' (world_with ''in.txt'' '' a,b\<newline>'')) = Inr ()
   \<and> files (snd (txt_to_csv home_env ''in.txt'' ''out.csv'' (world_with ''in.txt'' '' a,b\<newline>'')))
        ''out.csv'' = Some [CHR ''a'', COMMA, CHR ''b'', CR, LF]"
  by (simp add: txt_to_csv_def Let_def open_read_def world_with_def strip_def lstrip_def
        rstrip_def isspace_def csv_record_def write_field_def needs_quotes_def write_raw_def)

text \<open>
  Claim C3, amended. For an input file of N lines \<^verbatim>\<open>txt_to_csv\<close> returns normally and
  writes exactly N CSV records, one after the other. The i-th row is the i-th line with the
  whitespace at both of its ends stripped (the newline with it) and then split on the comma;
  a blank line gives the row of one empty field, written as a pair of quotes.
\<close>

theorem txt_to_csv_rows:
  assumes "files w txt_path = Some raw"
  shows "txt_to_csv env txt_path csv_path w
           = (Inr (), py_print (Line (''Converted TXT to CSV: '' @ csv_path))
                        (write_raw csv_path
                           (concat (map csv_record (txt_rows (readlines (universal_newlines raw)) [])))
                           w))
         \<and> length (txt_rows (readlines (universal_newlines raw)) [])
             = length (readlines (universal_newlines raw))
         \<and> (\<forall>i < length (readlines (universal_newlines raw)).
               txt_rows (readlines (universal_newlines raw)) [] ! i
                 = split_on COMMA (strip (readlines (universal_newlines raw) ! i))
               \<and> (strip (readlines (universal_newlines raw) ! i) = [] \<longrightarrow>
                    txt_rows (readlines (universal_newlines raw)) [] ! i = [[]]
                    \<and> csv_record (txt_rows (readlines (universal_newlines raw)) [] ! i)
                        = [DQ, DQ, CR, LF]))"
  using assms
  by (simp add: txt_to_csv_def Let_def open_read_def writerows_eq txt_rows_eq csv_record_blank)

theorem txt_to_csv_rows_witness:
  "txt_to_csv home_env ''in.txt'' ''out.csv'' (world_with ''in.txt'' ''a,b,1\<newline>\<newline>c,d,2\<newline>'')
     = (Inr (), py_print (Line ''Converted TXT to CSV: out.csv'')
                  (write_raw ''out.csv''
                     [CHR ''a'', COMMA, CHR ''b'', COMMA, CHR ''1'', CR, LF,
                      DQ, DQ, CR, LF,
                      CHR ''c'', COMMA, CHR ''d'', COMMA, CHR ''2'', CR, LF]
                     (world_with ''in.txt'' ''a,b,1\<newline>\<newline>c,d,2\<newline>'')))
   \<and> txt_rows (readlines (universal_newlines ''a,b,1\<newline>\<newline>c,d,2\<newline>'')) []
       = [[''a'', ''b'', ''1''], [[]], [''c'', ''d'', ''2'']]"
proof -
  have inp: "files (world_with ''in.txt'' ''a,b,1\<newline>\<newline>c,d,2\<newline>'') ''in.txt''
               = Some ''a,b,1\<newline>\<newline>c,d,2\<newline>''"
    by (simp add: world_with_def)
  have lns: "readlines (universal_newlines ''a,b,1\<newline>\<newline>c,d,2\<newline>'')
               = [''a,b,1\<newline>'', ''\<newline>'', ''c,d,2\<newline>'']"
    by simp
  have st: "strip ''a,b,1\<newline>'' = ''a,b,1''" "strip ''\<newline>'' = []"
      "strip ''c,d,2\<newline>'' = ''c,d,2''"
    by (simp_all add: strip_def lstrip_def rstrip_def isspace_def)
  have recs: "csv_record [''a'', ''b'', ''1''] = [CHR ''a'', COMMA, CHR ''b'', COMMA, CHR ''1'', CR, LF]"
      "csv_record [''c'', ''d'', ''2''] = [CHR ''c'', COMMA, CHR ''d'', COMMA, CHR ''2'', CR, LF]"
    by (simp_all add: csv_record_def write_field_def needs_quotes_def)
  from txt_to_csv_rows [OF inp, of home_env "''out.csv''"]
  have a: "txt_to_csv home_env ''in.txt'' ''out.csv''
             (world_with ''in.txt'' ''a,b,1\<newline>\<newline>c,d,2\<newline>'')
           = (Inr (), py_print (Line (''Converted TXT to CSV: '' @ ''out.csv''))
                (write_raw ''out.csv''
                   (concat (map csv_record
                      (txt_rows (readlines (universal_newlines ''a,b,1\<newline>\<newline>c,d,2\<newline>'')) [])))
                   (world_with ''in.txt'' ''a,b,1\<newline>\<newline>c,d,2\<newline>'')))"
    and b: "\<forall>i < length (readlines (universal_newlines ''a,b,1\<newline>\<newline>c,d,2\<newline>'')).
              txt_rows (readlines (universal_newlines ''a,b,1\<newline>\<newline>c,d,2\<newline>'')) [] ! i
                = split_on COMMA (strip (readlines (universal_newlines ''a,b,1\<newline>\<newline>c,d,2\<newline>'') ! i))
              \<and> (strip (readlines (universal_newlines ''a,b,1\<newline>\<newline>c,d,2\<newline>'') ! i) = [] \<longrightarrow>
                   txt_rows (readlines (universal_newlines ''a,b,1\<newline>\<newline>c,d,2\<newline>'')) [] ! i = [[]]
                   \<and> csv_record (txt_rows (readlines (universal_newlines ''a,b,1\<newline>\<newline>c,d,2\<newline>'')) [] ! i)
                       = [DQ, DQ, CR, LF])"
    by blast+
  have rows: "txt_rows (readlines (universal_newlines ''a,b,1\<newline>\<newline>c,d,2\<newline>'')) []
                = [[''a'', ''b'', ''1''], [[]], [''c'', ''d'', ''2'']]"
    by (simp only: lns txt_rows.simps st append_Nil) simp
  from b [rule_format, of 1] have "csv_record [[]] = [DQ, DQ, CR, LF]"
    by (simp add: rows lns st)
  with a rows recs show ?thesis by simp
qed

section \<open>Properties of CSV to JSON\<close>

lemma set_update_subset: "set (AList.update k v al) \<subseteq> insert (k, v) (set al)"
  by (induction al) auto

lemma update_fresh: "k \<notin> fst ` set al \<Longrightarrow> AList.update k v al = al @ [(k, v)]"
  by (induction al) auto

lemma fold_update_keys:
  "fst ` set (fold (\<lambda>(k, v). AList.update (Some k) (VStr v)) kvs d)
     = fst ` set d \<union> Some ` fst ` set kvs"
proof (induction kvs arbitrary: d)
  case Nil
  then show ?case by simp
next
  case (Cons kv kvs)
  obtain k v where kv: "kv = (k, v)" by (cases kv)
  have "fst ` set (fold (\<lambda>(k, v). AList.update (Some k) (VStr v)) kvs
                    (AList.update (Some k) (VStr v) d))
          = ({Some k} \<union> fst ` set d) \<union> Some ` fst ` set kvs"
    by (simp only: Cons.IH AList.dom_update)
  then show ?case by (auto simp: kv)
qed

lemma fold_update_vals:
  "\<forall>x \<in> set d. \<exists>s. snd x = VStr s
   \<Longrightarrow> \<forall>x \<in> set (fold (\<lambda>(k, v). AList.update (Some k) (VStr v)) kvs d). \<exists>s. snd x = VStr s"
proof (induction kvs arbitrary: d)
  case Nil
  then show ?case by simp
next
  case (Cons kv kvs)
  obtain k v where kv: "kv = (k, v)" by (cases kv)
  have "\<forall>x \<in> set (AList.update (Some k) (VStr v) d). \<exists>s. snd x = VStr s"
    using Cons.prems set_update_subset [of "Some k" "VStr v" d] by auto
  from Cons.IH [OF this] show ?case by (simp add: kv)
qed

lemma fold_update_distinct:
  "distinct (map fst kvs) \<Longrightarrow> fst ` set d \<inter> Some ` fst ` set kvs = {}
   \<Longrightarrow> fold (\<lambda>(k, v). AList.update (Some k) (VStr v)) kvs d
       = d @ map (\<lambda>(k, v). (Some k, VStr v)) kvs"
proof (induction kvs arbitrary: d)
  case Nil
  then show ?case by simp
next
  case (Cons kv kvs)
  obtain k v where kv: "kv = (k, v)" by (cases kv)
  from Cons.prems kv have fresh: "Some k \<notin> fst ` set d" by auto
  have d': "AList.update (Some k) (VStr v) d = d @ [(Some k, VStr v)]"
    by (rule update_fresh [OF fresh])
  have "fst ` set (d @ [(Some k, VStr v)]) \<inter> Some ` fst ` set kvs = {}"
    using Cons.prems kv by auto
  from Cons.IH [OF _ this] Cons.prems(1) show ?case by (simp add: kv d')
qed

lemma dict_row_same_length:
  "length row = length fieldnames
   \<Longrightarrow> dict_row fieldnames row
       = fold (\<lambda>(k, v). AList.update (Some k) (VStr v)) (zip fieldnames row) []"
  by (simp add: dict_row_def Let_def)

lemma dict_row_keys:
  assumes "length row = length fieldnames"
  shows "fst ` set (dict_row fieldnames row) = Some ` set fieldnames"
proof -
  have "fst ` set (zip fieldnames row) = set fieldnames"
    using assms by (metis map_fst_zip set_map)
  then show ?thesis
    by (simp add: dict_row_same_length [OF assms] fold_update_keys)
qed

lemma dict_row_vals:
  assumes "length row = length fieldnames"
  shows "\<forall>x \<in> set (dict_row fieldnames row). \<exists>s. snd x = VStr s"
  using fold_update_vals [of "[]" "zip fieldnames row"]
  by (simp add: dict_row_same_length [OF assms])

lemma dict_row_distinct:
  assumes "length row = length fieldnames" and "distinct fieldnames"
  shows "dict_row fieldnames row = zip (map Some fieldnames) (map VStr row)"
proof -
  have "distinct (map fst (zip fieldnames row))"
    using assms by simp
  from fold_update_distinct [OF this, of "[]"]
  show ?thesis
    by (simp add: dict_row_same_length [OF assms(1)] zip_map_map)
qed

lemma dict_rows_eq:
  "dict_rows fns rows data = data @ map (dict_row fns) (filter (\<lambda>r. r \<noteq> []) rows)"
  by (induction rows arbitrary: data) simp_all

lemma dict_reader_rect:
  assumes "header \<noteq> []" and "\<forall>r \<in> set rows. length r = length header"
  shows "dict_reader (header # rows) = map (dict_row header) rows"
proof -
  have "filter (\<lambda>r. r \<noteq> []) rows = rows"
    using assms by (auto simp: filter_id_conv)
  then show ?thesis by (simp add: dict_reader_def dict_rows_eq)
qed

lemmas reader_eval =
  csv_reader_def parse_line_def parse_reset_def parse_process_char_def at_start_field_def parse_add_char_def
  parse_save_field_def set_state_def field_limit_def

text \<open>
  Claim C6 says that every value of every element is a string. For the CSV file with the
  header \<^verbatim>\<open>a,b\<close> and the data row \<^verbatim>\<open>1\<close> the element maps \<^verbatim>\<open>b\<close> to \<^verbatim>\<open>None\<close>.
\<close>

theorem csv_to_json_short_row_counterexample:
  "csv_reader (readlines (universal_newlines ''a,b\<newline>1\<newline>'')) = Inr [[''a'', ''b''], [''1'']]
   \<and> csv_to_json_data (universal_newlines ''a,b\<newline>1\<newline>'')
       = Inr [[(Some ''a'', VStr ''1''), (Some ''b'', VNone)]]"
  by (simp add: csv_to_json_data_def dict_reader_def dict_row_def reader_eval)

text \<open>
  Claim C6, amended. For a CSV file that the reader parses into a non-empty header row and
  N data rows with as many fields as the header, \<^verbatim>\<open>csv_to_json\<close> returns normally and
  hands the serialiser an array of length N; the keys of its i-th element are the header
  columns, every value is a string, and with distinct header columns the i-th element maps
  the columns, in order, to the fields of the i-th data row.
\<close>

theorem csv_to_json_rectangular:
  assumes "files w csv_path = Some raw"
    and "csv_reader (readlines (universal_newlines raw)) = Inr (header # rows)"
    and "header \<noteq> []"
    and "\<forall>r \<in> set rows. length r = length header"
  shows "\<exists>data. csv_to_json_data (universal_newlines raw) = Inr data
           \<and> csv_to_json env dumps csv_path json_path w
               = (Inr (), py_print (Line (''Converted CSV to JSON: '' @ json_path))
                            (write_text env json_path (dumps data) w))
           \<and> length data = length rows
           \<and> (\<forall>i < length rows.
                 fst ` set (data ! i) = Some ` set header
                 \<and> (\<forall>x \<in> set (data ! i). \<exists>s. snd x = VStr s)
                 \<and> (distinct header \<longrightarrow>
                      data ! i = zip (map Some header) (map VStr (rows ! i))))"
proof -
  let ?data = "map (dict_row header) rows"
  have d: "csv_to_json_data (universal_newlines raw) = Inr ?data"
    using assms(2) dict_reader_rect [OF assms(3,4)] by (simp add: csv_to_json_data_def)
  have c: "csv_to_json env dumps csv_path json_path w
             = (Inr (), py_print (Line (''Converted CSV to JSON: '' @ json_path))
                          (write_text env json_path (dumps ?data) w))"
    using assms(1) d by (simp add: csv_to_json_def Let_def open_read_def)
  have e: "\<forall>i < length rows.
             fst ` set (?data ! i) = Some ` set header
             \<and> (\<forall>x \<in> set (?data ! i). \<exists>s. snd x = VStr s)
             \<and> (distinct header \<longrightarrow> ?data ! i = zip (map Some header) (map VStr (rows ! i)))"
  proof (intro allI impI)
    fix i assume i: "i < length rows"
    then have len: "length (rows ! i) = length header"
      using assms(4) by simp
    show "fst ` set (?data ! i) = Some ` set header
             \<and> (\<forall>x \<in> set (?data ! i). \<exists>s. snd x = VStr s)
             \<and> (distinct header \<longrightarrow> ?data ! i = zip (map Some header) (map VStr (rows ! i)))"
      using i dict_row_keys [OF len] dict_row_vals [OF len] dict_row_distinct [OF len]
      by simp
  qed
  from d c e show ?thesis by simp
qed


theorem csv_to_json_rectangular_witness:
  "csv_to_json_data (universal_newlines ''a,b\<newline>1,2\<newline>'')
       = Inr [[(Some ''a'', VStr ''1''), (Some ''b'', VStr ''2'')]]"
  using csv_to_json_rectangular
          [of "world_with ''in.csv'' ''a,b\<newline>1,2\<newline>''" "''in.csv''" "''a,b\<newline>1,2\<newline>''"
              "[''a'', ''b'']" "[[''1'', ''2'']]" home_env "\<lambda>_. []" "''out.json''"]
  by (auto simp: world_with_def reader_eval length_Suc_conv)

section \<open>The round trip text to CSV to text\<close>

subsection \<open>The reader reads back what the writer wrote\<close>

lemma parse_chars_append:
  "parse_chars r (a @ b) = (case parse_chars r a of Inl e \<Rightarrow> Inl e | Inr r' \<Rightarrow> parse_chars r' b)"
  by (induction a arbitrary: r) (auto split: sum.splits)

lemma in_field_plain:
  "\<forall>c \<in> set cs. plain c \<Longrightarrow> length buf + length cs \<le> field_limit
   \<Longrightarrow> parse_chars \<lparr>state = IN_FIELD, field_buf = buf, rec_fields = fs\<rparr> cs
       = Inr \<lparr>state = IN_FIELD, field_buf = buf @ cs, rec_fields = fs\<rparr>"
proof (induction cs arbitrary: buf)
  case Nil
  then show ?case by simp
next
  case (Cons c cs)
  from Cons.prems have c: "plain c" and len: "length buf < field_limit" by auto
  have step: "parse_process_char \<lparr>state = IN_FIELD, field_buf = buf, rec_fields = fs\<rparr> (Some c)
                = Inr \<lparr>state = IN_FIELD, field_buf = buf @ [c], rec_fields = fs\<rparr>"
    using c len by (simp add: parse_process_char_def parse_add_char_def plain_def)
  from Cons.prems have "\<forall>c \<in> set cs. plain c" "length (buf @ [c]) + length cs \<le> field_limit"
    by auto
  from Cons.IH [OF this] show ?case by (simp add: step)
qed

lemma in_quoted_escaped:
  "length buf + length cs \<le> field_limit
   \<Longrightarrow> parse_chars \<lparr>state = IN_QUOTED_FIELD, field_buf = buf, rec_fields = fs\<rparr> (escape_quotes cs)
       = Inr \<lparr>state = IN_QUOTED_FIELD, field_buf = buf @ cs, rec_fields = fs\<rparr>"
proof (induction cs arbitrary: buf)
  case Nil
  then show ?case by (simp add: escape_quotes_def)
next
  case (Cons c cs)
  from Cons.prems have len: "length buf < field_limit" by auto
  have step: "parse_chars \<lparr>state = IN_QUOTED_FIELD, field_buf = buf, rec_fields = fs\<rparr>
                 (if c = DQ then [DQ, DQ] else [c])
                = Inr \<lparr>state = IN_QUOTED_FIELD, field_buf = buf @ [c], rec_fields = fs\<rparr>"
    using len by (simp add: parse_process_char_def parse_add_char_def set_state_def)
  from Cons.prems have "length (buf @ [c]) + length cs \<le> field_limit"
    by auto
  from Cons.IH [OF this] have
    "parse_chars \<lparr>state = IN_QUOTED_FIELD, field_buf = buf @ [c], rec_fields = fs\<rparr> (escape_quotes cs)
       = Inr \<lparr>state = IN_QUOTED_FIELD, field_buf = buf @ c # cs, rec_fields = fs\<rparr>"
    by simp
  moreover have "escape_quotes (c # cs) = (if c = DQ then [DQ, DQ] else [c]) @ escape_quotes cs"
    by (simp add: escape_quotes_def)
  ultimately show ?case
    by (simp only: parse_chars_append step sum.case)
qed


lemma write_field_quoted: "needs_quotes f \<Longrightarrow> write_field f = DQ # escape_quotes f @ [DQ]"
  by (simp add: write_field_def escape_quotes_def)

lemma write_field_plain: "\<not> needs_quotes f \<Longrightarrow> write_field f = f \<and> (\<forall>c \<in> set f. plain c)"
  by (auto simp: write_field_def needs_quotes_def list_ex_iff plain_def)

lemma field_then_separator:
  assumes "clean_field f" and "t = COMMA \<or> t = LF"
  shows "parse_chars \<lparr>state = START_FIELD, field_buf = [], rec_fields = fs\<rparr> (write_field f @ [t])
           = Inr \<lparr>state = sep_state t, field_buf = [], rec_fields = fs @ [f]\<rparr>"
proof (cases "needs_quotes f")
  case True
  from assms(1) have len: "length ([] :: string) + length f \<le> field_limit"
    by (simp add: clean_field_def)
  have "parse_chars \<lparr>state = START_FIELD, field_buf = [], rec_fields = fs\<rparr>
          (DQ # escape_quotes f @ [DQ, t])
        = parse_chars \<lparr>state = IN_QUOTED_FIELD, field_buf = [], rec_fields = fs\<rparr>
            (escape_quotes f @ [DQ, t])"
    by (simp add: parse_process_char_def at_start_field_def)
  also have "\<dots> = parse_chars \<lparr>state = IN_QUOTED_FIELD, field_buf = f, rec_fields = fs\<rparr> [DQ, t]"
    using in_quoted_escaped [OF len, of fs] by (simp add: parse_chars_append)
  also have "\<dots> = Inr \<lparr>state = sep_state t, field_buf = [], rec_fields = fs @ [f]\<rparr>"
    using assms(2)
    by (auto simp: parse_process_char_def parse_save_field_def sep_state_def)
  finally show ?thesis by (simp add: write_field_quoted [OF True])
next
  case False
  from write_field_plain [OF False] have wf: "write_field f = f" and pl: "\<forall>c \<in> set f. plain c"
    by auto
  show ?thesis
  proof (cases f)
    case Nil
    then show ?thesis using assms(2) wf
      by (auto simp: parse_process_char_def at_start_field_def parse_save_field_def sep_state_def)
  next
    case (Cons c cs)
    from pl Cons have c: "plain c" and cs: "\<forall>c \<in> set cs. plain c" by auto
    from assms(1) Cons have len: "length [c] + length cs \<le> field_limit"
      by (simp add: clean_field_def)
    then have pos: "0 < field_limit" by simp
    have "parse_chars \<lparr>state = START_FIELD, field_buf = [], rec_fields = fs\<rparr> (c # cs @ [t])
          = parse_chars \<lparr>state = IN_FIELD, field_buf = [c], rec_fields = fs\<rparr> (cs @ [t])"
      using c pos
      by (simp add: parse_process_char_def at_start_field_def parse_add_char_def set_state_def
            plain_def)
    also have "\<dots> = parse_chars \<lparr>state = IN_FIELD, field_buf = c # cs, rec_fields = fs\<rparr> [t]"
      using in_field_plain [OF cs len, of fs] by (simp add: parse_chars_append)
    also have "\<dots> = Inr \<lparr>state = sep_state t, field_buf = [], rec_fields = fs @ [c # cs]\<rparr>"
      using assms(2)
      by (auto simp: parse_process_char_def parse_save_field_def sep_state_def)
    finally show ?thesis using wf by (simp add: Cons)
  qed
qed

lemma row_then_newline:
  assumes "row \<noteq> []" and "\<forall>f \<in> set row. clean_field f"
  shows "parse_chars \<lparr>state = START_FIELD, field_buf = [], rec_fields = fs\<rparr>
           (py_join '','' (map write_field row) @ [LF])
         = Inr \<lparr>state = EAT_CRNL, field_buf = [], rec_fields = fs @ row\<rparr>"
  using assms
proof (induction row arbitrary: fs rule: induct_list012)
  case 1
  then show ?case by simp
next
  case (2 f)
  then have "clean_field f" by simp
  from field_then_separator [OF this, of LF fs] show ?case
    by (simp add: sep_state_def)
next
  case (3 f g row)
  then have f: "clean_field f" and rest: "\<forall>x \<in> set (g # row). clean_field x" by auto
  have "py_join '','' (map write_field (f # g # row)) @ [LF]
          = (write_field f @ [COMMA]) @ (py_join '','' (map write_field (g # row)) @ [LF])"
    by simp
  then show ?case
    using field_then_separator [OF f, of COMMA fs] "3.IH"(2) [OF _ rest, of "fs @ [f]"]
    by (simp only: parse_chars_append) (simp add: sep_state_def)
qed


lemma csv_record_text: "csv_record row = record_text row @ [CR, LF]"
  by (simp add: csv_record_def record_text_def Let_def)

lemma set_py_join: "set (py_join sep xs) \<subseteq> set sep \<union> \<Union> (set ` set xs)"
  by (induction xs rule: induct_list012) auto

lemma set_write_field: "set (write_field f) \<subseteq> insert DQ (set f)"
  by (auto simp: write_field_def split: if_splits)

lemma set_record_text:
  "set (record_text row) \<subseteq> {DQ, COMMA} \<union> \<Union> (set ` set row)"
proof -
  have "set (py_join '','' (map write_field row)) \<subseteq> {DQ, COMMA} \<union> \<Union> (set ` set row)"
    using set_py_join [of "'',''" "map write_field row"] set_write_field by fastforce
  then show ?thesis by (auto simp: record_text_def Let_def)
qed

lemma record_text_no_newline:
  assumes "\<forall>f \<in> set row. clean_field f"
  shows "CR \<notin> set (record_text row) \<and> LF \<notin> set (record_text row)"
  using set_record_text [of row] assms by (auto simp: clean_field_def)

lemma write_field_empty: "write_field f = [] \<Longrightarrow> f = []"
  by (simp add: write_field_def split: if_splits)

lemma py_join_empty:
  "py_join '','' xs = [] \<Longrightarrow> xs = [] \<or> xs = [[]]"
  by (induction xs rule: induct_list012) auto

lemma start_record_as_start_field:
  "c \<noteq> CR \<Longrightarrow> c \<noteq> LF
   \<Longrightarrow> parse_process_char parse_reset (Some c)
       = parse_process_char \<lparr>state = START_FIELD, field_buf = [], rec_fields = []\<rparr> (Some c)"
  by (simp add: parse_process_char_def parse_reset_def)

lemma record_line:
  assumes "row \<noteq> []" and "\<forall>f \<in> set row. clean_field f"
  shows "parse_line parse_reset (record_text row @ [LF])
           = Inr \<lparr>state = START_RECORD, field_buf = [], rec_fields = row\<rparr>"
proof (cases "py_join '','' (map write_field row) = []")
  case True
  with assms(1) py_join_empty [OF True] have "map write_field row = [[]]" by simp
  then have row: "row = [[]]" using write_field_empty by (cases row) auto
  show ?thesis
    by (simp add: row record_text_def write_field_def needs_quotes_def parse_line_def
          parse_process_char_def at_start_field_def parse_reset_def parse_save_field_def)
next
  case False
  then have rt: "record_text row = py_join '','' (map write_field row)"
    by (simp add: record_text_def Let_def)
  from False obtain c cs where ccs: "py_join '','' (map write_field row) = c # cs"
    by (cases "py_join '','' (map write_field row)") auto
  from record_text_no_newline [OF assms(2)] rt ccs have c: "c \<noteq> CR" "c \<noteq> LF" by auto
  have "parse_chars parse_reset (c # cs @ [LF])
          = parse_chars \<lparr>state = START_FIELD, field_buf = [], rec_fields = []\<rparr> (c # cs @ [LF])"
    by (simp add: start_record_as_start_field [OF c])
  also have "\<dots> = Inr \<lparr>state = EAT_CRNL, field_buf = [], rec_fields = row\<rparr>"
    using row_then_newline [OF assms, of "[]"] ccs by simp
  finally show ?thesis
    by (simp add: parse_line_def rt ccs parse_process_char_def)
qed

lemma read_rows_records:
  assumes "\<forall>row \<in> set rows. row \<noteq> [] \<and> (\<forall>f \<in> set row. clean_field f)"
  shows "read_rows parse_reset (map (\<lambda>row. record_text row @ [LF]) rows) = Inr rows"
  using assms
proof (induction rows)
  case Nil
  then show ?case by (simp add: parse_reset_def)
next
  case (Cons row rows)
  then have "row \<noteq> []" "\<forall>f \<in> set row. clean_field f" by auto
  from record_line [OF this] Cons show ?case by simp
qed

subsection \<open>Lines, newlines and stripping\<close>

lemma universal_newlines_other:
  "c \<noteq> CR \<Longrightarrow> universal_newlines (c # cs) = c # universal_newlines cs"
  by (cases cs) simp_all

lemma universal_newlines_append:
  "CR \<notin> set l \<Longrightarrow> universal_newlines (l @ rest) = l @ universal_newlines rest"
proof (induction l)
  case Nil
  then show ?case by simp
next
  case (Cons a l)
  then have "a \<noteq> CR" by auto
  with Cons show ?case by (simp add: universal_newlines_other)
qed

lemma universal_newlines_lines:
  assumes "sep = [LF] \<or> sep = [CR, LF]" and "\<forall>l \<in> set ls. CR \<notin> set l"
  shows "universal_newlines (concat (map (\<lambda>l. l @ sep) ls)) = concat (map (\<lambda>l. l @ [LF]) ls)"
  using assms(2)
proof (induction ls)
  case Nil
  then show ?case by simp
next
  case (Cons l ls)
  then have l: "CR \<notin> set l" and IH: "universal_newlines (concat (map (\<lambda>l. l @ sep) ls))
      = concat (map (\<lambda>l. l @ [LF]) ls)" by auto
  have "universal_newlines (sep @ concat (map (\<lambda>l. l @ sep) ls))
          = LF # universal_newlines (concat (map (\<lambda>l. l @ sep) ls))"
    using assms(1) by (auto simp: universal_newlines_other)
  then show ?case
    using IH by (simp add: universal_newlines_append [OF l])
qed

lemma readlines_line:
  "LF \<notin> set l \<Longrightarrow> readlines (l @ LF # rest) = (l @ [LF]) # readlines rest"
proof (induction l)
  case Nil
  then show ?case by simp
next
  case (Cons a l)
  then have "a \<noteq> LF" by auto
  with Cons show ?case by simp
qed

lemma readlines_lines:
  "\<forall>l \<in> set ls. LF \<notin> set l
   \<Longrightarrow> readlines (concat (map (\<lambda>l. l @ [LF]) ls)) = map (\<lambda>l. l @ [LF]) ls"
  by (induction ls) (simp_all add: readlines_line)

lemma dropWhile_same_length: "length (dropWhile P xs) = length xs \<Longrightarrow> dropWhile P xs = xs"
  by (metis append_self_conv2 length_0_conv length_append add_cancel_right_left
        takeWhile_dropWhile_id add.commute)

lemma strip_fixed:
  assumes "strip l = l"
  shows "lstrip l = l" and "rstrip l = l"
proof -
  have a: "length (rstrip (lstrip l)) \<le> length (lstrip l)"
    by (simp add: rstrip_def length_dropWhile_le [of isspace "rev (lstrip l)", simplified])
  have b: "length (lstrip l) \<le> length l"
    by (simp add: lstrip_def length_dropWhile_le)
  from assms a b have "length (lstrip l) = length l" by (simp add: strip_def)
  then show l: "lstrip l = l" by (simp add: lstrip_def dropWhile_same_length)
  with assms show "rstrip l = l" by (simp add: strip_def)
qed

lemma strip_line:
  assumes "strip l = l"
  shows "strip (l @ [LF]) = l"
proof (cases l)
  case Nil
  then show ?thesis by (simp add: strip_def lstrip_def rstrip_def isspace_def)
next
  case (Cons c cs)
  from strip_fixed [OF assms] have ls: "lstrip l = l" and rs: "rstrip l = l" by auto
  from ls have "dropWhile isspace l = l" by (simp add: lstrip_def)
  then have "l = [] \<or> \<not> isspace (hd l)" by (simp only: dropWhile_eq_self_iff)
  with Cons have "\<not> isspace c" by simp
  then have "lstrip (l @ [LF]) = l @ [LF]" by (simp add: lstrip_def Cons)
  moreover have "rstrip (l @ [LF]) = rstrip l" by (simp add: rstrip_def isspace_def)
  ultimately show ?thesis using rs by (simp add: strip_def)
qed

lemma split_on_nonempty: "split_on c l \<noteq> []"
  by (induction l) (auto split: list.splits)

lemma join_split: "py_join [c] (split_on c l) = l"
proof (induction l)
  case Nil
  then show ?case by simp
next
  case (Cons x l)
  then show ?case
    using split_on_nonempty [of c l]
    by (cases "split_on c l"; cases "tl (split_on c l)") auto
qed

lemma split_on_chars: "f \<in> set (split_on c l) \<Longrightarrow> set f \<subseteq> set l"
proof (induction l arbitrary: f)
  case Nil
  then show ?case by simp
next
  case (Cons x l)
  show ?case
  proof (cases "split_on c l")
    case Nil
    with Cons.prems show ?thesis by (auto split: if_splits)
  next
    case (Cons a fs)
    have a: "set a \<subseteq> set l" and fs: "\<forall>g \<in> set fs. set g \<subseteq> set l"
      using Cons.IH Cons by auto
    from Cons.prems Cons have "f = [] \<or> f = a \<or> f = x # a \<or> f \<in> set fs"
      by (auto split: if_splits)
    with a fs show ?thesis by auto
  qed
qed

lemma translate_newlines_append:
  "translate_newlines sep (a @ b) = translate_newlines sep a @ translate_newlines sep b"
  by (simp add: translate_newlines_def)

lemma translate_newlines_none: "LF \<notin> set l \<Longrightarrow> translate_newlines sep l = l"
  by (induction l) (auto simp: translate_newlines_def)

lemma translate_newlines_lines:
  "\<forall>l \<in> set ls. LF \<notin> set l
   \<Longrightarrow> translate_newlines sep (concat (map (\<lambda>l. l @ [LF]) ls)) = concat (map (\<lambda>l. l @ sep) ls)"
proof (induction ls)
  case Nil
  then show ?case by (simp add: translate_newlines_def)
next
  case (Cons l ls)
  then show ?case
    by (simp add: translate_newlines_append translate_newlines_none)
       (simp add: translate_newlines_def)
qed

lemma txt_lines_eq:
  "txt_lines rows out = out @ concat (map (\<lambda>row. py_join '','' row @ [LF]) rows)"
  by (induction rows arbitrary: out) simp_all

lemma files_write_raw: "files (write_raw p s w) p = Some s"
  by (simp add: write_raw_def)

lemma files_write_text: "files (write_text env p s w) p = Some (translate_newlines (linesep env) s)"
  by (simp add: write_text_def)

text \<open>
  Claim C4 says that text to CSV to text is the identity on every input file in which no
  field contains a comma. The file holding \<^verbatim>\<open>a,b\<close> with no newline after it comes back
  with a newline at its end.
\<close>

theorem txt_csv_txt_no_final_newline_counterexample:
  "txt_to_csv home_env ''in.txt'' ''t.csv'' (world_with ''in.txt'' ''a,b'')
     = (Inr (), py_print (Line ''Converted TXT to CSV: t.csv'')
                  (write_raw ''t.csv'' [CHR ''a'', COMMA, CHR ''b'', CR, LF]
                     (world_with ''in.txt'' ''a,b'')))
   \<and> fst (csv_to_txt home_env ''t.csv'' ''out.txt''
            (snd (txt_to_csv home_env ''in.txt'' ''t.csv'' (world_with ''in.txt'' ''a,b'')))) = Inr ()
   \<and> files (snd (csv_to_txt home_env ''t.csv'' ''out.txt''
                   (snd (txt_to_csv home_env ''in.txt'' ''t.csv'' (world_with ''in.txt'' ''a,b'')))))
        ''out.txt'' = Some ''a,b\<newline>''
   \<and> ''a,b\<newline>'' \<noteq> ''a,b''"
  by (simp add: txt_to_csv_def csv_to_txt_def Let_def open_read_def world_with_def home_env_def
        strip_def lstrip_def rstrip_def isspace_def csv_record_def write_field_def
        needs_quotes_def write_raw_def write_text_def translate_newlines_def reader_eval)

text \<open>
  Claim C4, amended. For an input file in which every line ends with the line separator of
  the platform (\<^verbatim>\<open>\n\<close> or \<^verbatim>\<open>\r\n\<close>) and holds no other carriage return or line feed, no
  line begins or ends with whitespace, and no comma-separated field is longer than the
  field size limit of the CSV reader, \<^verbatim>\<open>txt_to_csv\<close> followed by \<^verbatim>\<open>csv_to_txt\<close> returns
  normally and reproduces the contents of the file exactly.
\<close>

theorem txt_csv_txt_round_trip:
  assumes infile: "files w txt_path = Some raw"
    and raw: "raw = concat (map (\<lambda>l. l @ linesep env) ls)"
    and sep: "linesep env = [LF] \<or> linesep env = [CR, LF]"
    and lines: "\<forall>l \<in> set ls. CR \<notin> set l \<and> LF \<notin> set l \<and> strip l = l
                  \<and> (\<forall>f \<in> set (split_on COMMA l). length f \<le> field_limit)"
  shows "\<exists>w1 w2. txt_to_csv env txt_path csv_path w = (Inr (), w1)
           \<and> csv_to_txt env csv_path out_path w1 = (Inr (), w2)
           \<and> files w2 out_path = Some raw"
proof -
  let ?rows = "map (split_on COMMA) ls"
  let ?csv = "concat (map csv_record ?rows)"
  let ?w1 = "py_print (Line (''Converted TXT to CSV: '' @ csv_path)) (write_raw csv_path ?csv w)"
  have nocr: "\<forall>l \<in> set ls. CR \<notin> set l" and nolf: "\<forall>l \<in> set ls. LF \<notin> set l"
    using lines by auto
  have utext: "universal_newlines raw = concat (map (\<lambda>l. l @ [LF]) ls)"
    unfolding raw by (rule universal_newlines_lines [OF sep nocr])
  have rl: "readlines (universal_newlines raw) = map (\<lambda>l. l @ [LF]) ls"
    unfolding utext by (rule readlines_lines [OF nolf])
  have "map (\<lambda>l. split_on COMMA (strip l)) (map (\<lambda>l. l @ [LF]) ls) = ?rows"
    using lines by (simp add: strip_line)
  then have rows: "txt_rows (readlines (universal_newlines raw)) [] = ?rows"
    by (simp only: rl txt_rows_eq append_Nil)
  have step1: "txt_to_csv env txt_path csv_path w = (Inr (), ?w1)"
    using infile by (simp add: txt_to_csv_def Let_def open_read_def rows writerows_eq)
  have clean: "\<forall>row \<in> set ?rows. row \<noteq> [] \<and> (\<forall>f \<in> set row. clean_field f)"
  proof
    fix row assume "row \<in> set ?rows"
    then obtain l where l: "l \<in> set ls" and row: "row = split_on COMMA l" by auto
    have "\<forall>f \<in> set row. clean_field f"
    proof
      fix f assume f: "f \<in> set row"
      with row split_on_chars have "set f \<subseteq> set l" by blast
      with l lines f row show "clean_field f" by (auto simp: clean_field_def)
    qed
    with row split_on_nonempty show "row \<noteq> [] \<and> (\<forall>f \<in> set row. clean_field f)" by simp
  qed
  have csv: "?csv = concat (map (\<lambda>t. t @ [CR, LF]) (map record_text ?rows))"
    by (simp add: csv_record_text comp_def)
  have "\<forall>t \<in> set (map record_text ?rows). CR \<notin> set t"
    and nolf': "\<forall>t \<in> set (map record_text ?rows). LF \<notin> set t"
    using clean record_text_no_newline by auto
  then have "universal_newlines ?csv = concat (map (\<lambda>t. t @ [LF]) (map record_text ?rows))"
    unfolding csv by (intro universal_newlines_lines) simp_all
  then have "readlines (universal_newlines ?csv) = map (\<lambda>t. t @ [LF]) (map record_text ?rows)"
    using readlines_lines [OF nolf'] by simp
  then have "csv_reader (readlines (universal_newlines ?csv)) = Inr ?rows"
    using read_rows_records [OF clean] by (simp add: csv_reader_def comp_def)
  moreover have "files ?w1 csv_path = Some ?csv"
    by (simp add: files_write_raw)
  ultimately have step2: "csv_to_txt env csv_path out_path ?w1
      = (Inr (), py_print (Line (''Converted CSV to TXT: '' @ out_path))
                   (write_text env out_path (txt_lines ?rows []) ?w1))"
    by (simp add: csv_to_txt_def Let_def open_read_def)
  have "txt_lines ?rows [] = concat (map (\<lambda>l. l @ [LF]) ls)"
    by (simp add: txt_lines_eq comp_def join_split)
  then have "translate_newlines (linesep env) (txt_lines ?rows []) = raw"
    unfolding raw using translate_newlines_lines [OF nolf] by simp
  then have "files (py_print (Line (''Converted CSV to TXT: '' @ out_path))
                     (write_text env out_path (txt_lines ?rows []) ?w1)) out_path = Some raw"
    by (simp add: files_write_text)
  with step1 step2 show ?thesis by blast
qed

theorem txt_csv_txt_round_trip_witness:
  "\<exists>w1 w2. txt_to_csv home_env ''in.txt'' ''t.csv'' (world_with ''in.txt'' ''a,b,1\<newline>c,d,2\<newline>'')
               = (Inr (), w1)
     \<and> csv_to_txt home_env ''t.csv'' ''out.txt'' w1 = (Inr (), w2)
     \<and> files w2 ''out.txt'' = Some ''a,b,1\<newline>c,d,2\<newline>''"
proof -
  have h1: "files (world_with ''in.txt'' ''a,b,1\<newline>c,d,2\<newline>'') ''in.txt''
              = Some ''a,b,1\<newline>c,d,2\<newline>''"
    by (simp add: world_with_def)
  have h2: "''a,b,1\<newline>c,d,2\<newline>'' = concat (map (\<lambda>l. l @ linesep home_env) [''a,b,1'', ''c,d,2''])"
    by (simp add: home_env_def)
  have h3: "linesep home_env = [LF] \<or> linesep home_env = [CR, LF]"
    by (simp add: home_env_def)
  have len: "\<forall>f \<in> set (split_on COMMA ''a,b,1''). length f \<le> field_limit"
            "\<forall>f \<in> set (split_on COMMA ''c,d,2''). length f \<le> field_limit"
    by (simp_all add: field_limit_def)
  have st: "strip ''a,b,1'' = ''a,b,1''" "strip ''c,d,2'' = ''c,d,2''"
    by (simp_all add: strip_def lstrip_def rstrip_def isspace_def)
  have h4: "\<forall>l \<in> set [''a,b,1'', ''c,d,2'']. CR \<notin> set l \<and> LF \<notin> set l \<and> strip l = l
              \<and> (\<forall>f \<in> set (split_on COMMA l). length f \<le> field_limit)"
    using len st by simp
  show ?thesis by (rule txt_csv_txt_round_trip [OF h1 h2 h3 h4])
qed

end
